theory Spec2Isabelle
  imports Main
begin

section \<open>The Redis store the limiter talks to\<close>

text \<open>
  The limiter keeps one Redis sorted set per rate-limit key. A sorted set holds
  (member, score) pairs with pairwise distinct members, ordered by score and then by
  member; a key may carry a time-to-live, and a key whose sorted set becomes empty is
  deleted together with its time-to-live.

  Timestamps, window sizes and limits are Python integers. The script turns them into
  Lua numbers (doubles), which are exact for every integer of magnitude below \<open>2^53\<close>;
  millisecond timestamps are far below, so they are modelled as \<open>int\<close>. A member is the
  decimal rendering of the number handed to \<open>ZADD\<close>; the rendering is injective on
  integers, so the integer itself stands for the member.
\<close>

type_synonym zentry = "int \<times> int"  \<comment> \<open>(member, score)\<close>

record zkey =
  members :: "zentry list"
  ttl :: "int option"  \<comment> \<open>milliseconds given to the last \<open>PEXPIRE\<close>; \<open>None\<close>: no expiry\<close>

type_synonym redis = "string \<rightharpoonup> zkey"

definition entries :: "redis \<Rightarrow> string \<Rightarrow> zentry list" where
  "entries db key = (case db key of None \<Rightarrow> [] | Some v \<Rightarrow> members v)"

definition key_ttl :: "redis \<Rightarrow> string \<Rightarrow> int option" where
  "key_ttl db key = (case db key of None \<Rightarrow> None | Some v \<Rightarrow> ttl v)"

fun zinsert :: "zentry \<Rightarrow> zentry list \<Rightarrow> zentry list" where
  "zinsert e [] = [e]"
| "zinsert (m, s) ((m', s') # es) =
     (if s < s' \<or> (s = s' \<and> m \<le> m') then (m, s) # (m', s') # es
      else (m', s') # zinsert (m, s) es)"

text \<open>
  \<open>ZREMRANGEBYSCORE key -inf mx\<close>: both ends of the range are inclusive, so every pair
  with score \<open>\<le> mx\<close> goes. The number of removed pairs, which the command returns, is
  not used by the script and is left out.
\<close>

definition zremrangebyscore :: "redis \<Rightarrow> string \<Rightarrow> int \<Rightarrow> redis" where
  "zremrangebyscore db key mx =
     (case db key of
        None \<Rightarrow> db
      | Some v \<Rightarrow>
          (let kept = filter (\<lambda>(m, s). mx < s) (members v)
           in if kept = [] then db(key := None) else db(key \<mapsto> v\<lparr>members := kept\<rparr>)))"

definition zcard :: "redis \<Rightarrow> string \<Rightarrow> int" where
  "zcard db key = (case db key of None \<Rightarrow> 0 | Some v \<Rightarrow> int (length (members v)))"

text \<open>
  \<open>ZADD key score member\<close> is an upsert by member: a pair with the same member is
  replaced, never duplicated. A key that did not exist is created without expiry.
\<close>

definition zadd :: "redis \<Rightarrow> string \<Rightarrow> int \<Rightarrow> int \<Rightarrow> redis" where
  "zadd db key score member =
     (case db key of
        None \<Rightarrow> db(key \<mapsto> \<lparr>members = [(member, score)], ttl = None\<rparr>)
      | Some v \<Rightarrow>
          db(key \<mapsto> v\<lparr>members :=
               zinsert (member, score) (filter (\<lambda>(m, s). m \<noteq> member) (members v))\<rparr>))"

text \<open>\<open>PEXPIRE key ms\<close>: a non-positive time-to-live deletes the key at once.\<close>

definition pexpire :: "redis \<Rightarrow> string \<Rightarrow> int \<Rightarrow> redis" where
  "pexpire db key ms =
     (case db key of
        None \<Rightarrow> db
      | Some v \<Rightarrow> if ms \<le> 0 then db(key := None) else db(key \<mapsto> v\<lparr>ttl := Some ms\<rparr>))"

section \<open>The sliding-window script and the limiter\<close>

text \<open>
  \<open>SLIDING_WINDOW_SCRIPT\<close> of \<open>rate_limiter.py\<close>, run by Redis as one step: trim,
  count, and on \<open>count < limit\<close> add the timestamp (as score and as member) and set the
  expiry. It returns 1 (allowed) or 0 (denied) and the store it leaves.
\<close>

definition sliding_window_script :: "redis \<Rightarrow> string \<Rightarrow> int \<Rightarrow> int \<Rightarrow> int \<Rightarrow> int \<times> redis" where
  "sliding_window_script db key now window limit =
     (let db1 = zremrangebyscore db key (now - window);
          count = zcard db1 key
      in if count < limit
         then (1, pexpire (zadd db1 key now now) key (window * 2))
         else (0, db1))"

text \<open>
  The failures the specification names. \<open>allow_request\<close> has no \<open>raise\<close> and checks
  none of its arguments; with a reachable backend, which is what the store above models,
  it always returns.
\<close>

datatype error = InvalidConfiguration | BackendUnavailable

definition rate_key :: "string \<Rightarrow> string \<Rightarrow> string" where
  "rate_key client_id endpoint = ''rate:'' @ client_id @ '':'' @ endpoint"

text \<open>
  \<open>DistributedRateLimiter.allow_request\<close>; \<open>now_ms\<close> is the caller's clock reading
  \<open>int(time.time() * 1000)\<close>, and \<open>bool(result)\<close> is \<open>result \<noteq> 0\<close>.
\<close>

definition allow_request ::
  "redis \<Rightarrow> int \<Rightarrow> string \<Rightarrow> string \<Rightarrow> int \<Rightarrow> int \<Rightarrow> error + bool \<times> redis" where
  "allow_request db now_ms client_id endpoint limit window_ms =
     (let key = rate_key client_id endpoint;
          (result, db') = sliding_window_script db key now_ms window_ms limit
      in Inr (result \<noteq> 0, db'))"

text \<open>\<open>DistributedRateLimiter.get_current_usage\<close>: one \<open>ZCARD\<close>, paired with the store it leaves.\<close>

definition get_current_usage :: "redis \<Rightarrow> string \<Rightarrow> string \<Rightarrow> int \<times> redis" where
  "get_current_usage db client_id endpoint =
     (let key = rate_key client_id endpoint in (zcard db key, db))"

text \<open>
  A run of calls to \<open>allow_request\<close> for one pair with one configuration, in the order in
  which Redis executes their scripts; each call brings its own clock reading. The
  decisions are returned in that order. No key expires between the calls of a run: an
  admitted call sets the time-to-live to twice the window, and the runs considered below
  end before it has passed.
\<close>

fun allow_requests ::
  "redis \<Rightarrow> string \<Rightarrow> string \<Rightarrow> int \<Rightarrow> int \<Rightarrow> int list \<Rightarrow> error + bool list \<times> redis" where
  "allow_requests db client_id endpoint limit window_ms [] = Inr ([], db)"
| "allow_requests db client_id endpoint limit window_ms (t # ts) =
     (case allow_request db t client_id endpoint limit window_ms of
        Inl e \<Rightarrow> Inl e
      | Inr (b, db') \<Rightarrow>
          (case allow_requests db' client_id endpoint limit window_ms ts of
             Inl e \<Rightarrow> Inl e
           | Inr (bs, db'') \<Rightarrow> Inr (b # bs, db'')))"

section \<open>Facts about the store commands\<close>

lemma set_zinsert: "set (zinsert e es) = insert e (set es)"
  by (induction e es rule: zinsert.induct) auto

lemma length_zinsert: "length (zinsert e es) = Suc (length es)"
  by (induction e es rule: zinsert.induct) auto

lemma zcard_entries: "zcard db key = int (length (entries db key))"
  by (simp add: zcard_def entries_def split: option.splits)

lemma entries_zremrangebyscore:
  "entries (zremrangebyscore db key mx) key = filter (\<lambda>(m, s). mx < s) (entries db key)"
  by (simp add: zremrangebyscore_def entries_def Let_def split: option.splits)

lemma zremrangebyscore_other:
  "key' \<noteq> key \<Longrightarrow> zremrangebyscore db key mx key' = db key'"
  by (simp add: zremrangebyscore_def Let_def split: option.splits)

lemma zadd_other: "key' \<noteq> key \<Longrightarrow> zadd db key sc mem key' = db key'"
  by (simp add: zadd_def split: option.splits)

lemma pexpire_other: "key' \<noteq> key \<Longrightarrow> pexpire db key ms key' = db key'"
  by (simp add: pexpire_def split: option.splits)

lemma key_ttl_zremrangebyscore:
  "filter (\<lambda>(m, s). mx < s) (entries db key) \<noteq> [] \<Longrightarrow>
   key_ttl (zremrangebyscore db key mx) key = key_ttl db key"
  by (simp add: zremrangebyscore_def entries_def key_ttl_def Let_def split: option.splits)

lemma zremrangebyscore_unchanged:
  assumes "filter (\<lambda>(m, s). mx < s) (entries db key) = entries db key"
    and "entries db key \<noteq> []"
  shows "zremrangebyscore db key mx = db"
proof (cases "db key")
  case None
  then show ?thesis by (simp add: zremrangebyscore_def)
next
  case (Some v)
  with assms have "filter (\<lambda>(m, s). mx < s) (members v) = members v" "members v \<noteq> []"
    by (simp_all add: entries_def)
  with Some show ?thesis
    by (simp add: zremrangebyscore_def Let_def fun_upd_idem)
qed

lemma entries_zadd:
  "entries (zadd db key sc mem) key =
     zinsert (mem, sc) (filter (\<lambda>(m, s). m \<noteq> mem) (entries db key))"
  by (simp add: zadd_def entries_def split: option.splits)

lemma entries_pexpire:
  "entries (pexpire db key ms) key = (if ms \<le> 0 then [] else entries db key)"
  by (simp add: pexpire_def entries_def split: option.splits)

lemma zadd_key_exists: "zadd db key sc mem key \<noteq> None"
  by (simp add: zadd_def split: option.splits)

lemma filter_same_length:
  "length (filter P xs) = length xs \<Longrightarrow> filter P xs = xs"
proof (induction xs)
  case Nil
  then show ?case by simp
next
  case (Cons x xs)
  have le: "length (filter P xs) \<le> length xs" by (rule length_filter_le)
  show ?case
  proof (cases "P x")
    case True
    with Cons show ?thesis by simp
  next
    case False
    with Cons.prems le show ?thesis by simp
  qed
qed

lemma append_sep_left:
  assumes "c \<notin> set a" and "c \<notin> set b" and "a @ c # x = b @ c # y"
  shows "a = b \<and> x = y"
  using assms
proof (induction a arbitrary: b)
  case Nil
  then show ?case by (cases b) auto
next
  case (Cons a0 as)
  then show ?case by (cases b) auto
qed

lemma append_sep_right:
  assumes "c \<notin> set x" and "c \<notin> set y" and "a @ c # x = b @ c # y"
  shows "a = b \<and> x = y"
proof -
  from assms(3) have "rev (a @ c # x) = rev (b @ c # y)" by simp
  then have eq: "rev x @ c # rev a = rev y @ c # rev b" by simp
  have "c \<notin> set (rev x)" and "c \<notin> set (rev y)" using assms(1,2) by simp_all
  then have "rev x = rev y \<and> rev a = rev b"
    using eq by (rule append_sep_left)
  then show ?thesis by simp
qed

section \<open>Facts about the script and the limiter\<close>

lemma script_decision:
  "fst (sliding_window_script db key now window limit) =
     (if int (length (filter (\<lambda>(m, s). now - window < s) (entries db key))) < limit then 1 else 0)"
  by (simp add: sliding_window_script_def Let_def zcard_entries entries_zremrangebyscore)

lemma script_denied:
  "fst (sliding_window_script db key now window limit) = 0 \<Longrightarrow>
   snd (sliding_window_script db key now window limit) = zremrangebyscore db key (now - window)"
  by (simp add: sliding_window_script_def Let_def split: if_splits)

lemma script_other:
  "key' \<noteq> key \<Longrightarrow> snd (sliding_window_script db key now window limit) key' = db key'"
  by (simp add: sliding_window_script_def Let_def pexpire_other zadd_other zremrangebyscore_other)

lemma allow_request_unfold:
  "allow_request db now cid ep limit window =
     Inr (fst (sliding_window_script db (rate_key cid ep) now window limit) \<noteq> 0,
          snd (sliding_window_script db (rate_key cid ep) now window limit))"
  by (simp add: allow_request_def Let_def split: prod.splits)

lemma script_scores_fresh:
  assumes "0 < window"
  shows "\<forall>(m, s) \<in> set (entries (snd (sliding_window_script db key now window limit)) key).
           now - window < s"
  using assms
  by (auto simp add: sliding_window_script_def Let_def entries_pexpire entries_zadd
      entries_zremrangebyscore set_zinsert)

lemma script_local:
  assumes "db key = db2 key"
  shows "fst (sliding_window_script db key now window limit) =
         fst (sliding_window_script db2 key now window limit)"
proof -
  from assms have "entries db key = entries db2 key" by (simp add: entries_def)
  then show ?thesis by (simp add: script_decision)
qed

lemma allow_request_denied:
  assumes "allow_request db now cid ep limit window = Inr (False, db')"
  shows "db' = zremrangebyscore db (rate_key cid ep) (now - window)"
    and "\<not> int (length (filter (\<lambda>(m, s). now - window < s) (entries db (rate_key cid ep)))) < limit"
  using assms
  by (auto simp add: allow_request_def sliding_window_script_def Let_def zcard_entries
      entries_zremrangebyscore split: if_splits)

lemma allow_request_decision:
  "map_sum id fst (allow_request db now cid ep limit window) =
     Inr (int (length (filter (\<lambda>(m, s). now - window < s) (entries db (rate_key cid ep)))) < limit)"
  by (simp add: allow_request_unfold script_decision)

lemma allow_request_admitted:
  assumes "allow_request db now cid ep limit window = Inr (True, db')" and "0 < window"
  shows "entries db' (rate_key cid ep) =
           zinsert (now, now) (filter (\<lambda>(m, s). m \<noteq> now)
             (filter (\<lambda>(m, s). now - window < s) (entries db (rate_key cid ep))))"
    and "key_ttl db' (rate_key cid ep) = Some (window * 2)"
proof -
  let ?key = "rate_key cid ep"
  let ?db1 = "zremrangebyscore db ?key (now - window)"
  from assms(1) have db': "db' = pexpire (zadd ?db1 ?key now now) ?key (window * 2)"
    by (simp add: allow_request_def sliding_window_script_def Let_def split: if_splits)
  from assms(2) show "entries db' ?key =
           zinsert (now, now) (filter (\<lambda>(m, s). m \<noteq> now)
             (filter (\<lambda>(m, s). now - window < s) (entries db ?key)))"
    by (simp add: db' entries_pexpire entries_zadd entries_zremrangebyscore)
  have "zadd ?db1 ?key now now ?key \<noteq> None"
    by (rule zadd_key_exists)
  with assms(2) show "key_ttl db' ?key = Some (window * 2)"
    by (auto simp add: db' pexpire_def key_ttl_def split: option.splits)
qed

lemma allow_request_admitted_fresh_member:
  assumes "allow_request db now cid ep limit window = Inr (True, db')" and "0 < window"
    and "now \<notin> fst ` set (entries db (rate_key cid ep))"
  shows "length (entries db' (rate_key cid ep)) =
           Suc (length (filter (\<lambda>(m, s). now - window < s) (entries db (rate_key cid ep))))"
proof -
  let ?kept = "filter (\<lambda>(m, s). now - window < s) (entries db (rate_key cid ep))"
  from assms(3) have "\<forall>e \<in> set ?kept. fst e \<noteq> now" by force
  then have "filter (\<lambda>(m, s). m \<noteq> now) ?kept = ?kept"
    by (intro filter_True) auto
  with allow_request_admitted(1) [OF assms(1,2)] show ?thesis
    by (simp add: length_zinsert)
qed

lemma rate_key_eq_iff:
  "rate_key id1 res1 = rate_key id2 res2 \<longleftrightarrow> id1 @ CHR '':'' # res1 = id2 @ CHR '':'' # res2"
  by (simp add: rate_key_def)

lemma rate_key_distinct:
  assumes "(id1, res1) \<noteq> (id2, res2)"
    and "id1 = id2 \<or> res1 = res2 \<or>
         (CHR '':'' \<notin> set id1 \<and> CHR '':'' \<notin> set id2) \<or>
         (CHR '':'' \<notin> set res1 \<and> CHR '':'' \<notin> set res2)"
  shows "rate_key id1 res1 \<noteq> rate_key id2 res2"
proof
  assume "rate_key id1 res1 = rate_key id2 res2"
  then have eq: "id1 @ CHR '':'' # res1 = id2 @ CHR '':'' # res2"
    by (simp add: rate_key_eq_iff)
  from assms(2) have "id1 = id2 \<and> res1 = res2"
  proof (elim disjE)
    assume "id1 = id2"
    with eq show ?thesis by simp
  next
    assume "res1 = res2"
    with eq show ?thesis by simp
  next
    assume "CHR '':'' \<notin> set id1 \<and> CHR '':'' \<notin> set id2"
    with eq show ?thesis by (blast dest: append_sep_left)
  next
    assume "CHR '':'' \<notin> set res1 \<and> CHR '':'' \<notin> set res2"
    with eq show ?thesis by (blast dest: append_sep_right)
  qed
  with assms(1) show False by simp
qed

section \<open>Runs of calls with pairwise distinct timestamps\<close>

text \<open>
  When no two calls of a run read the same millisecond, every admitted call adds its own
  entry, and the limit is enforced: the call after \<open>limit\<close> admitted ones is denied.
\<close>

lemma allow_requests_append:
  "allow_requests db cid ep limit window (ts @ us) =
     (case allow_requests db cid ep limit window ts of
        Inl e \<Rightarrow> Inl e
      | Inr (bs, db') \<Rightarrow>
          (case allow_requests db' cid ep limit window us of
             Inl e \<Rightarrow> Inl e
           | Inr (cs, db'') \<Rightarrow> Inr (bs @ cs, db'')))"
  by (induction ts arbitrary: db) (auto simp add: allow_request_unfold split: sum.splits prod.splits)

lemma allow_requests_fill:
  assumes "0 < window" and "distinct ts"
    and "\<forall>t \<in> set ts. \<forall>t' \<in> set ts. t' - window < t"
    and "\<forall>(m, s) \<in> set (entries db (rate_key cid ep)). m \<notin> set ts \<and> (\<forall>t \<in> set ts. t - window < s)"
    and "int (length (entries db (rate_key cid ep))) + int (length ts) \<le> limit"
  shows "\<exists>db'. allow_requests db cid ep limit window ts = Inr (replicate (length ts) True, db') \<and>
           length (entries db' (rate_key cid ep)) = length (entries db (rate_key cid ep)) + length ts \<and>
           set (entries db' (rate_key cid ep)) =
             set (entries db (rate_key cid ep)) \<union> (\<lambda>t. (t, t)) ` set ts"
  using assms
proof (induction ts arbitrary: db)
  case Nil
  then show ?case by simp
next
  case (Cons t ts)
  let ?key = "rate_key cid ep"
  let ?es = "entries db ?key"
  from Cons.prems(4) have fresh: "\<forall>e \<in> set ?es. (case e of (m, s) \<Rightarrow> t - window < s)"
    by auto
  then have kept: "filter (\<lambda>(m, s). t - window < s) ?es = ?es"
    by (intro filter_True) auto
  from Cons.prems(5) have "int (length ?es) < limit" by simp
  with kept have "map_sum id fst (allow_request db t cid ep limit window) = Inr True"
    by (simp add: allow_request_decision)
  then obtain db1 where step: "allow_request db t cid ep limit window = Inr (True, db1)"
    by (auto simp add: allow_request_unfold)
  from Cons.prems(4) have "\<forall>e \<in> set ?es. (case e of (m, s) \<Rightarrow> m \<noteq> t)"
    by auto
  then have "filter (\<lambda>(m, s). m \<noteq> t) ?es = ?es"
    by (intro filter_True) auto
  with allow_request_admitted(1) [OF step Cons.prems(1)] kept
  have es1: "entries db1 ?key = zinsert (t, t) ?es" by simp
  have len1: "length (entries db1 ?key) = Suc (length ?es)"
    by (simp add: es1 length_zinsert)
  have set1: "set (entries db1 ?key) = insert (t, t) (set ?es)"
    by (simp add: es1 set_zinsert)
  have p2: "distinct ts" using Cons.prems(2) by simp
  have p3: "\<forall>a \<in> set ts. \<forall>b \<in> set ts. b - window < a" using Cons.prems(3) by simp
  have p4: "\<forall>(m, s) \<in> set (entries db1 ?key). m \<notin> set ts \<and> (\<forall>u \<in> set ts. u - window < s)"
    using Cons.prems(2,3,4) by (auto simp add: set1)
  have p5: "int (length (entries db1 ?key)) + int (length ts) \<le> limit"
    using Cons.prems(5) by (simp add: len1)
  from Cons.IH [OF Cons.prems(1) p2 p3 p4 p5]
  obtain db' where
    run: "allow_requests db1 cid ep limit window ts = Inr (replicate (length ts) True, db')"
    and len: "length (entries db' ?key) = length (entries db1 ?key) + length ts"
    and ents: "set (entries db' ?key) = set (entries db1 ?key) \<union> (\<lambda>t. (t, t)) ` set ts"
    by blast
  have "allow_requests db cid ep limit window (t # ts) = Inr (replicate (length (t # ts)) True, db')"
    by (simp add: step run)
  moreover have "length (entries db' ?key) = length ?es + length (t # ts)"
    by (simp add: len len1)
  moreover have "set (entries db' ?key) = set ?es \<union> (\<lambda>t. (t, t)) ` set (t # ts)"
    by (auto simp add: ents set1)
  ultimately show ?case by blast
qed

lemma limit_enforced_for_distinct_timestamps:
  assumes "0 < window" and "0 < limit" and "distinct ts" and "int (length ts) = limit"
    and "\<forall>a \<in> set (u # ts). \<forall>b \<in> set (u # ts). b - window < a"
  shows "map_sum id fst (allow_requests Map.empty cid ep limit window (ts @ [u])) =
           Inr (replicate (length ts) True @ [False])"
proof -
  let ?key = "rate_key cid ep"
  have e0: "entries Map.empty ?key = []" by (simp add: entries_def)
  have q3: "\<forall>t \<in> set ts. \<forall>t' \<in> set ts. t' - window < t" using assms(5) by simp
  have q4: "\<forall>(m, s) \<in> set (entries Map.empty ?key). m \<notin> set ts \<and> (\<forall>t \<in> set ts. t - window < s)"
    by (simp add: e0)
  have q5: "int (length (entries Map.empty ?key)) + int (length ts) \<le> limit"
    using assms(4) by (simp add: e0)
  from allow_requests_fill [OF assms(1,3) q3 q4 q5]
  obtain db' where
    run: "allow_requests Map.empty cid ep limit window ts = Inr (replicate (length ts) True, db')"
    and len: "length (entries db' ?key) = length ts"
    and ents: "set (entries db' ?key) = (\<lambda>t. (t, t)) ` set ts"
    by (auto simp add: e0)
  from ents assms(5) have "\<forall>e \<in> set (entries db' ?key). (case e of (m, s) \<Rightarrow> u - window < s)"
    by auto
  then have "filter (\<lambda>(m, s). u - window < s) (entries db' ?key) = entries db' ?key"
    by (intro filter_True) auto
  with len assms(4) have "map_sum id fst (allow_request db' u cid ep limit window) = Inr False"
    by (simp add: allow_request_decision)
  then obtain db'' where last: "allow_request db' u cid ep limit window = Inr (False, db'')"
    by (auto simp add: allow_request_unfold)
  show ?thesis
    by (simp add: allow_requests_append run last)
qed

lemma usage_exact_for_distinct_timestamps:
  assumes "0 < window" and "distinct ts" and "int (length ts) \<le> limit"
    and "\<forall>a \<in> set ts. \<forall>b \<in> set ts. b - window < a"
  shows "\<exists>db'. allow_requests Map.empty cid ep limit window ts =
             Inr (replicate (length ts) True, db') \<and>
           get_current_usage db' cid ep = (int (length ts), db')"
proof -
  let ?key = "rate_key cid ep"
  have e0: "entries Map.empty ?key = []" by (simp add: entries_def)
  have q4: "\<forall>(m, s) \<in> set (entries Map.empty ?key). m \<notin> set ts \<and> (\<forall>t \<in> set ts. t - window < s)"
    by (simp add: e0)
  have q5: "int (length (entries Map.empty ?key)) + int (length ts) \<le> limit"
    using assms(3) by (simp add: e0)
  from allow_requests_fill [OF assms(1,2,4) q4 q5]
  obtain db' where
    run: "allow_requests Map.empty cid ep limit window ts = Inr (replicate (length ts) True, db')"
    and len: "length (entries db' ?key) = length ts"
    by (auto simp add: e0)
  from len have "get_current_usage db' cid ep = (int (length ts), db')"
    by (simp add: get_current_usage_def zcard_entries)
  with run show ?thesis by blast
qed

section \<open>The claims\<close>

subsection \<open>C1: what an admitted call stores\<close>

text \<open>
  C1 says that \<open>allow\<close> returns true exactly when, after the trim, fewer than \<open>limit\<close>
  entries remain, and that an admitted call then inserts exactly one new entry scored at
  \<open>now\<close> and sets the expiry to \<open>2 * window_ms\<close>. The decision and the expiry are as
  stated (\<open>allow_request_decision\<close>, \<open>allow_request_admitted\<close>), and the entry is new
  whenever no entry of the key has member \<open>now\<close> (\<open>allow_request_admitted_fresh_member\<close>).
  The script hands \<open>now\<close> to \<open>ZADD\<close> as the member, though, so a second call admitted in
  the same millisecond overwrites the entry of the first: with limit 2 and window 1000,
  two calls at millisecond 5 are both admitted, and the key holds the single entry
  \<open>(5, 5)\<close> after the first call and after the second.
\<close>

theorem admitted_call_same_ms_adds_no_entry:
  "(case allow_request Map.empty 5 ''c'' ''/e'' 2 1000 of
      Inl e \<Rightarrow> False
    | Inr (b1, db1) \<Rightarrow>
        b1 \<and> entries db1 (rate_key ''c'' ''/e'') = [(5, 5)] \<and>
        (case allow_request db1 5 ''c'' ''/e'' 2 1000 of
           Inl e \<Rightarrow> False
         | Inr (b2, db2) \<Rightarrow>
             b2 \<and> entries db2 (rate_key ''c'' ''/e'') = [(5, 5)] \<and>
             key_ttl db2 (rate_key ''c'' ''/e'') = Some 2000))"
  by (simp add: allow_request_def sliding_window_script_def zremrangebyscore_def zcard_def
      zadd_def pexpire_def rate_key_def entries_def key_ttl_def)

subsection \<open>C2: the call after \<open>limit\<close> admitted calls\<close>

text \<open>
  C2 says that after \<open>limit\<close> admitted calls within one window the next call in that
  window is denied. For pairwise distinct timestamps this is
  \<open>limit_enforced_for_distinct_timestamps\<close>. It fails when two of the calls read the same
  millisecond: with limit 3 and window 1000, the calls at 0, 100, 100 and 200 are all
  admitted, the fourth being the call after three admitted ones.
\<close>

theorem call_beyond_limit_admitted:
  "map_sum id fst (allow_requests Map.empty ''c'' ''/e'' 3 1000 [0, 100, 100, 200]) =
     Inr [True, True, True, True]"
  by (simp add: allow_request_def sliding_window_script_def zremrangebyscore_def zcard_def
      zadd_def pexpire_def rate_key_def)

subsection \<open>C3: simultaneous calls\<close>

text \<open>
  C3 says that \<open>N > L\<close> simultaneous calls for one key give exactly \<open>L\<close> admissions and
  \<open>N - L\<close> denials. Redis runs each script as one step, so the calls take effect in some
  order, one whole script after the other, which is what \<open>allow_requests\<close> runs. Five calls
  that all read millisecond 7, with limit 2, give five admissions and no denial.
\<close>

theorem simultaneous_calls_all_admitted:
  "map_sum id (\<lambda>(bs, db). (length (filter (\<lambda>b. b) bs), length (filter (\<lambda>b. \<not> b) bs)))
     (allow_requests Map.empty ''c'' ''/e'' 2 1000 [7, 7, 7, 7, 7]) = Inr (5, 0)"
  by (simp add: allow_request_def sliding_window_script_def zremrangebyscore_def zcard_def
      zadd_def pexpire_def rate_key_def)

subsection \<open>C4: distinct members for distinct admitted requests\<close>

text \<open>
  C4 says that two distinct admitted requests on one key never have the same stored
  member. The member is the timestamp: two calls at millisecond 5 with limit 2 are both
  admitted, and the key then holds one entry, whose member is 5.
\<close>

theorem same_ms_admissions_share_member:
  "(case allow_requests Map.empty ''c'' ''/e'' 2 1000 [5, 5] of
      Inl e \<Rightarrow> False
    | Inr (bs, db) \<Rightarrow> bs = [True, True] \<and> map fst (entries db (rate_key ''c'' ''/e'')) = [5])"
  by (simp add: allow_request_def sliding_window_script_def zremrangebyscore_def zcard_def
      zadd_def pexpire_def rate_key_def entries_def)

subsection \<open>C5: the trim\<close>

text \<open>
  C5 says that the trim removes the scores below \<open>now - window_ms\<close> and keeps an entry
  scored exactly \<open>now - window_ms\<close>. The range of \<open>ZREMRANGEBYSCORE\<close> includes its upper
  end, so that entry goes too: with limit 1 and window 1000, the call at 0 is admitted and
  stores \<open>(0, 0)\<close>; the call at 1000 removes it, the score being \<open>1000 - 1000\<close>, and is
  admitted with the key holding \<open>(1000, 1000)\<close> alone.
\<close>

theorem boundary_entry_trimmed:
  "(case allow_request Map.empty 0 ''c'' ''/e'' 1 1000 of
      Inl e \<Rightarrow> False
    | Inr (b1, db1) \<Rightarrow>
        b1 \<and> entries db1 (rate_key ''c'' ''/e'') = [(0, 1000 - 1000)] \<and>
        (case allow_request db1 1000 ''c'' ''/e'' 1 1000 of
           Inl e \<Rightarrow> False
         | Inr (b2, db2) \<Rightarrow> b2 \<and> entries db2 (rate_key ''c'' ''/e'') = [(1000, 1000)]))"
  by (simp add: allow_request_def sliding_window_script_def zremrangebyscore_def zcard_def
      zadd_def pexpire_def rate_key_def entries_def)

text \<open>
  C5 as the script has it: the trim of a call removes exactly the entries with score
  \<open>\<le> now - window_ms\<close>, so every entry that remains has a score above \<open>now - window_ms\<close>;
  the trim is the first step of the script, and with a positive window every entry of the
  key after the call has a score above \<open>now - window_ms\<close>.
\<close>

theorem trim_removes_up_to_boundary:
  "entries (zremrangebyscore db key (now - window)) key =
     filter (\<lambda>(m, s). now - window < s) (entries db key) \<and>
   (\<forall>(m, s) \<in> set (entries (zremrangebyscore db key (now - window)) key). now - window < s) \<and>
   (\<forall>(m, s) \<in> set (entries db key).
      s \<le> now - window \<longrightarrow> (m, s) \<notin> set (entries (zremrangebyscore db key (now - window)) key)) \<and>
   sliding_window_script db key now window limit =
     (if zcard (zremrangebyscore db key (now - window)) key < limit
      then (1, pexpire (zadd (zremrangebyscore db key (now - window)) key now now) key (window * 2))
      else (0, zremrangebyscore db key (now - window))) \<and>
   (0 < window \<longrightarrow>
      (\<forall>(m, s) \<in> set (entries (snd (sliding_window_script db key now window limit)) key).
         now - window < s))"
proof -
  have 1: "entries (zremrangebyscore db key (now - window)) key =
     filter (\<lambda>(m, s). now - window < s) (entries db key)"
    by (rule entries_zremrangebyscore)
  have 2: "\<forall>(m, s) \<in> set (entries (zremrangebyscore db key (now - window)) key). now - window < s"
    by (auto simp add: 1)
  have 3: "\<forall>(m, s) \<in> set (entries db key).
      s \<le> now - window \<longrightarrow> (m, s) \<notin> set (entries (zremrangebyscore db key (now - window)) key)"
    by (auto simp add: 1)
  have 4: "sliding_window_script db key now window limit =
     (if zcard (zremrangebyscore db key (now - window)) key < limit
      then (1, pexpire (zadd (zremrangebyscore db key (now - window)) key now now) key (window * 2))
      else (0, zremrangebyscore db key (now - window)))"
    by (simp add: sliding_window_script_def Let_def)
  have 5: "0 < window \<longrightarrow>
      (\<forall>(m, s) \<in> set (entries (snd (sliding_window_script db key now window limit)) key).
         now - window < s)"
    using script_scores_fresh by blast
  from 1 2 3 4 5 show ?thesis by blast
qed

text \<open>
  The theorem at a key holding \<open>(0, 0)\<close> and \<open>(1, 1)\<close>, trimmed at \<open>now = 1000\<close> with
  window 1000: \<open>(1, 1)\<close> remains.
\<close>

theorem trim_removes_up_to_boundary_witness:
  "entries (zremrangebyscore
      [rate_key ''c'' ''/e'' \<mapsto> \<lparr>members = [(0, 0), (1, 1)], ttl = Some 2000\<rparr>]
      (rate_key ''c'' ''/e'') (1000 - 1000)) (rate_key ''c'' ''/e'') = [(1, 1)]"
  using trim_removes_up_to_boundary
    [of "[rate_key ''c'' ''/e'' \<mapsto> \<lparr>members = [(0, 0), (1, 1)], ttl = Some 2000\<rparr>]"
        "rate_key ''c'' ''/e''" 1000 1000 2]
  by (simp add: entries_def)

subsection \<open>C6: a denied call\<close>

text \<open>
  C6 says that a denied call leaves the entries and the expiry of the key as they were.
  The trim runs before the count, also in a call that is then denied: after two calls
  admitted under limit 2 at 0 and 500, a call at 1200 with limit 1 is denied and has
  removed the entry \<open>(0, 0)\<close>.
\<close>

theorem denied_call_trims_stale_entries:
  "(case allow_requests Map.empty ''c'' ''/e'' 2 1000 [0, 500] of
      Inl e \<Rightarrow> False
    | Inr (bs, db) \<Rightarrow>
        bs = [True, True] \<and>
        entries db (rate_key ''c'' ''/e'') = [(0, 0), (500, 500)] \<and>
        (case allow_request db 1200 ''c'' ''/e'' 1 1000 of
           Inl e \<Rightarrow> False
         | Inr (b, db') \<Rightarrow> \<not> b \<and> entries db' (rate_key ''c'' ''/e'') = [(500, 500)]))"
  by (simp add: allow_request_def sliding_window_script_def zremrangebyscore_def zcard_def
      zadd_def pexpire_def rate_key_def entries_def)

text \<open>
  C6 as the script has it: a denied call inserts nothing and sets no expiry; the store it
  leaves is the trimmed store. With a positive limit the expiry of the key stays as it
  was, and the store is unchanged whenever no entry of the key has a score
  \<open>\<le> now - window_ms\<close>, in particular whenever the key held at most \<open>limit\<close> entries.
\<close>

theorem denied_call_only_trims:
  assumes "allow_request db now cid ep limit window = Inr (False, db')"
  shows "db' = zremrangebyscore db (rate_key cid ep) (now - window) \<and>
         entries db' (rate_key cid ep) =
           filter (\<lambda>(m, s). now - window < s) (entries db (rate_key cid ep)) \<and>
         (0 < limit \<longrightarrow> key_ttl db' (rate_key cid ep) = key_ttl db (rate_key cid ep)) \<and>
         (0 < limit \<longrightarrow>
            filter (\<lambda>(m, s). now - window < s) (entries db (rate_key cid ep)) =
              entries db (rate_key cid ep) \<longrightarrow> db' = db) \<and>
         (0 < limit \<longrightarrow> zcard db (rate_key cid ep) \<le> limit \<longrightarrow> db' = db)"
proof -
  let ?key = "rate_key cid ep"
  let ?kept = "filter (\<lambda>(m, s). now - window < s) (entries db ?key)"
  from assms have trimmed: "db' = zremrangebyscore db ?key (now - window)"
    and full: "\<not> int (length ?kept) < limit"
    by (rule allow_request_denied)+
  have ents: "entries db' ?key = ?kept"
    by (simp add: trimmed entries_zremrangebyscore)
  have nonempty: "?kept \<noteq> []" if "0 < limit"
    using full that by auto
  have ttl_same: "key_ttl db' ?key = key_ttl db ?key" if "0 < limit"
    using nonempty [OF that] by (simp add: trimmed key_ttl_zremrangebyscore)
  have same: "db' = db" if "0 < limit" and "?kept = entries db ?key"
  proof -
    from nonempty [OF that(1)] that(2) have "entries db ?key \<noteq> []" by simp
    with that(2) show ?thesis
      by (simp add: trimmed zremrangebyscore_unchanged)
  qed
  have same': "db' = db" if "0 < limit" and "zcard db ?key \<le> limit"
  proof -
    from that(2) full have "length (entries db ?key) \<le> length ?kept"
      by (simp add: zcard_entries)
    moreover have "length ?kept \<le> length (entries db ?key)"
      by (rule length_filter_le)
    ultimately have "length ?kept = length (entries db ?key)"
      by (rule le_antisym [rotated])
    then have "?kept = entries db ?key"
      by (rule filter_same_length)
    with that(1) show ?thesis by (rule same)
  qed
  from trimmed ents ttl_same same same' show ?thesis by blast
qed

text \<open>
  The theorem at a key holding \<open>(500, 500)\<close>, with limit 1 and window 1000: the call at
  600 is denied and leaves the store as it was.
\<close>

theorem denied_call_only_trims_witness:
  "allow_request [rate_key ''c'' ''/e'' \<mapsto> \<lparr>members = [(500, 500)], ttl = Some 2000\<rparr>]
     600 ''c'' ''/e'' 1 1000 =
     Inr (False, [rate_key ''c'' ''/e'' \<mapsto> \<lparr>members = [(500, 500)], ttl = Some 2000\<rparr>]) \<and>
   (0::int) < 1 \<and>
   zcard [rate_key ''c'' ''/e'' \<mapsto> \<lparr>members = [(500, 500)], ttl = Some 2000\<rparr>]
     (rate_key ''c'' ''/e'') \<le> 1 \<and>
   key_ttl [rate_key ''c'' ''/e'' \<mapsto> \<lparr>members = [(500, 500)], ttl = Some 2000\<rparr>]
     (rate_key ''c'' ''/e'') = Some 2000"
proof -
  let ?db = "[rate_key ''c'' ''/e'' \<mapsto> \<lparr>members = [(500, 500)], ttl = Some 2000\<rparr>]"
  have h: "allow_request ?db 600 ''c'' ''/e'' 1 1000 = Inr (False, ?db)"
    by (simp add: allow_request_def sliding_window_script_def zremrangebyscore_def zcard_def)
  from denied_call_only_trims [OF h] h show ?thesis
    by (simp add: zcard_def key_ttl_def)
qed

subsection \<open>C7: non-positive configuration\<close>

text \<open>
  C7 says that a non-positive \<open>limit\<close> or \<open>window_ms\<close> is rejected with
  \<open>InvalidConfiguration\<close> before the store is contacted. \<open>allow_request\<close> checks neither:
  with limit 0 the script runs, trims the key (here to nothing, which deletes it) and the
  call returns false; with window \<open>-1\<close> the call returns as well.
\<close>

theorem nonpositive_configuration_not_rejected:
  "allow_request [rate_key ''c'' ''/e'' \<mapsto> \<lparr>members = [(0, 0)], ttl = Some 2000\<rparr>]
     1200 ''c'' ''/e'' 0 1000 = Inr (False, Map.empty) \<and>
   allow_request [rate_key ''c'' ''/e'' \<mapsto> \<lparr>members = [(0, 0)], ttl = Some 2000\<rparr>]
     1200 ''c'' ''/e'' 0 1000 \<noteq> Inl InvalidConfiguration \<and>
   [rate_key ''c'' ''/e'' \<mapsto> \<lparr>members = [(0, 0)], ttl = Some 2000\<rparr>] \<noteq> Map.empty \<and>
   allow_request Map.empty 5 ''c'' ''/e'' 3 (- 1) \<noteq> Inl InvalidConfiguration"
  by (simp add: allow_request_def sliding_window_script_def zremrangebyscore_def zcard_def
      zadd_def pexpire_def)

text \<open>
  C7 as the code has it: with a non-positive \<open>limit\<close> or \<open>window_ms\<close> the call runs the
  script and returns its decision, which is true exactly when fewer than \<open>limit\<close> entries
  of the key have a score above \<open>now - window_ms\<close>. With a non-positive limit that is
  false; a denied call leaves the trimmed store; an admitted one (its window is then
  non-positive) leaves the key deleted, by the non-positive expiry.
\<close>

theorem no_configuration_check:
  assumes "limit \<le> 0 \<or> window \<le> 0"
  shows "\<exists>b db'. allow_request db now cid ep limit window = Inr (b, db') \<and>
           (b \<longleftrightarrow> int (length (filter (\<lambda>(m, s). now - window < s)
                                  (entries db (rate_key cid ep)))) < limit) \<and>
           (limit \<le> 0 \<longrightarrow> \<not> b) \<and>
           (\<not> b \<longrightarrow> db' = zremrangebyscore db (rate_key cid ep) (now - window)) \<and>
           (b \<longrightarrow> window \<le> 0 \<and> db' (rate_key cid ep) = None)"
proof -
  let ?key = "rate_key cid ep"
  let ?r = "sliding_window_script db ?key now window limit"
  let ?n = "int (length (filter (\<lambda>(m, s). now - window < s) (entries db ?key)))"
  have run: "allow_request db now cid ep limit window = Inr (fst ?r \<noteq> 0, snd ?r)"
    by (rule allow_request_unfold)
  have dec: "fst ?r \<noteq> 0 \<longleftrightarrow> ?n < limit"
    by (simp add: script_decision)
  have deny: "limit \<le> 0 \<longrightarrow> \<not> fst ?r \<noteq> 0"
    using dec by auto
  have trimmed: "\<not> fst ?r \<noteq> 0 \<longrightarrow> snd ?r = zremrangebyscore db ?key (now - window)"
    by (simp add: script_denied)
  have gone: "fst ?r \<noteq> 0 \<longrightarrow> window \<le> 0 \<and> snd ?r ?key = None"
  proof
    assume a: "fst ?r \<noteq> 0"
    with deny have "\<not> limit \<le> 0" by blast
    with assms have w: "window \<le> 0" by simp
    from a have "snd ?r = pexpire (zadd (zremrangebyscore db ?key (now - window)) ?key now now) ?key (window * 2)"
      by (simp add: sliding_window_script_def Let_def split: if_splits)
    with w have "snd ?r ?key = None"
      by (simp add: pexpire_def split: option.splits)
    with w show "window \<le> 0 \<and> snd ?r ?key = None" by simp
  qed
  from run dec deny trimmed gone show ?thesis by blast
qed

text \<open>
  The theorem at limit 1 and window 0 on the empty store: the call is admitted and the
  store is empty again.
\<close>

theorem no_configuration_check_witness:
  "((1::int) \<le> 0 \<or> (0::int) \<le> 0) \<and>
   allow_request Map.empty 5 ''c'' ''/e'' 1 0 = Inr (True, Map.empty)"
proof -
  have h: "(1::int) \<le> 0 \<or> (0::int) \<le> 0" by simp
  from no_configuration_check [OF h, of Map.empty 5 "''c''" "''/e''"] h
  show ?thesis
    by (simp add: allow_request_def sliding_window_script_def zremrangebyscore_def zcard_def
        zadd_def pexpire_def)
qed

subsection \<open>C8: independence of distinct pairs\<close>

text \<open>
  C8 says that the keys of two distinct (identity, resource) pairs never coincide, so that
  calls for one pair never change the decision or the usage of the other. The key joins
  the two strings with a colon and escapes nothing: the pairs \<open>(key:a:/b, /c)\<close> and
  \<open>(key:a, /b:/c)\<close> have the same key, and one admitted call for the first raises the
  usage of the second from 0 to 1 and turns its next decision under limit 1 from allowed
  to denied.
\<close>

theorem colliding_pairs_share_key:
  "(''key:a:/b'', ''/c'') \<noteq> (''key:a'', ''/b:/c'') \<and>
   rate_key ''key:a:/b'' ''/c'' = rate_key ''key:a'' ''/b:/c'' \<and>
   fst (get_current_usage Map.empty ''key:a'' ''/b:/c'') = 0 \<and>
   allow_request Map.empty 6 ''key:a'' ''/b:/c'' 1 1000 =
     Inr (True, [rate_key ''key:a'' ''/b:/c'' \<mapsto> \<lparr>members = [(6, 6)], ttl = Some 2000\<rparr>]) \<and>
   (case allow_request Map.empty 5 ''key:a:/b'' ''/c'' 1 1000 of
      Inl e \<Rightarrow> False
    | Inr (b, db') \<Rightarrow>
        b \<and> fst (get_current_usage db' ''key:a'' ''/b:/c'') = 1 \<and>
        map_sum id fst (allow_request db' 6 ''key:a'' ''/b:/c'' 1 1000) = Inr False)"
  by (simp add: allow_request_def sliding_window_script_def zremrangebyscore_def zcard_def
      zadd_def pexpire_def rate_key_def get_current_usage_def)

text \<open>
  C8 as the code has it: two distinct pairs have distinct keys when they share the
  identity, or share the resource, or neither identity contains a colon, or neither
  resource contains a colon. A call to \<open>allow_request\<close> for one such pair then leaves the
  key of the other untouched, and with it the usage and every decision of the other;
  \<open>get_current_usage\<close> changes nothing at all.
\<close>

theorem separable_pairs_independent:
  assumes "(id1, res1) \<noteq> (id2, res2)"
    and "id1 = id2 \<or> res1 = res2 \<or>
         (CHR '':'' \<notin> set id1 \<and> CHR '':'' \<notin> set id2) \<or>
         (CHR '':'' \<notin> set res1 \<and> CHR '':'' \<notin> set res2)"
  shows "rate_key id1 res1 \<noteq> rate_key id2 res2 \<and>
         (\<exists>b db'. allow_request db now id1 res1 limit window = Inr (b, db') \<and>
            db' (rate_key id2 res2) = db (rate_key id2 res2) \<and>
            fst (get_current_usage db' id2 res2) = fst (get_current_usage db id2 res2) \<and>
            map_sum id fst (allow_request db' now2 id2 res2 limit2 window2) =
              map_sum id fst (allow_request db now2 id2 res2 limit2 window2)) \<and>
         snd (get_current_usage db id1 res1) = db"
proof -
  let ?k1 = "rate_key id1 res1" and ?k2 = "rate_key id2 res2"
  let ?db' = "snd (sliding_window_script db ?k1 now window limit)"
  from assms have ne: "?k1 \<noteq> ?k2" by (rule rate_key_distinct)
  have run: "allow_request db now id1 res1 limit window =
      Inr (fst (sliding_window_script db ?k1 now window limit) \<noteq> 0, ?db')"
    by (rule allow_request_unfold)
  from ne have frame: "?db' ?k2 = db ?k2"
    by (simp add: script_other)
  then have usage: "fst (get_current_usage ?db' id2 res2) = fst (get_current_usage db id2 res2)"
    by (simp add: get_current_usage_def zcard_def)
  from frame have "fst (sliding_window_script ?db' ?k2 now2 window2 limit2) =
      fst (sliding_window_script db ?k2 now2 window2 limit2)"
    by (rule script_local)
  then have decision: "map_sum id fst (allow_request ?db' now2 id2 res2 limit2 window2) =
      map_sum id fst (allow_request db now2 id2 res2 limit2 window2)"
    by (simp add: allow_request_unfold)
  have pure: "snd (get_current_usage db id1 res1) = db"
    by (simp add: get_current_usage_def)
  from ne run frame usage decision pure show ?thesis by blast
qed

text \<open>
  The theorem at the pairs \<open>(key:a, /x)\<close> and \<open>(key:b, /x)\<close>: a call admitted for the
  first leaves the usage of the second at 0.
\<close>

theorem separable_pairs_independent_witness:
  "(''key:a'', ''/x'') \<noteq> (''key:b'', ''/x'') \<and>
   rate_key ''key:a'' ''/x'' \<noteq> rate_key ''key:b'' ''/x'' \<and>
   fst (get_current_usage Map.empty ''key:b'' ''/x'') = 0 \<and>
   (case allow_request Map.empty 5 ''key:a'' ''/x'' 1 1000 of
      Inl e \<Rightarrow> False
    | Inr (b, db') \<Rightarrow> b \<and> fst (get_current_usage db' ''key:b'' ''/x'') = 0)"
proof -
  have h1: "(''key:a'', ''/x'') \<noteq> (''key:b'', ''/x'')" by simp
  have h2: "''key:a'' = ''key:b'' \<or> ''/x'' = ''/x'' \<or>
         (CHR '':'' \<notin> set ''key:a'' \<and> CHR '':'' \<notin> set ''key:b'') \<or>
         (CHR '':'' \<notin> set ''/x'' \<and> CHR '':'' \<notin> set ''/x'')" by simp
  from separable_pairs_independent [OF h1 h2, of Map.empty 5 1 1000 5 1 1000] h1
  show ?thesis
    by (simp add: allow_request_def sliding_window_script_def zremrangebyscore_def zcard_def
      zadd_def pexpire_def rate_key_def get_current_usage_def)
qed

subsection \<open>C9: the usage after admitted calls\<close>

text \<open>
  C9 says that after \<open>m \<le> limit\<close> admitted calls within the window the usage is exactly
  \<open>m\<close>, and that the query changes nothing. The query is one \<open>ZCARD\<close> and leaves the store
  as it was, and for pairwise distinct timestamps the count is \<open>m\<close>
  (\<open>usage_exact_for_distinct_timestamps\<close>). Two calls admitted in the same millisecond
  under limit 5 leave one entry, and the usage is 1.
\<close>

theorem usage_undercounts_same_ms:
  "(case allow_requests Map.empty ''c'' ''/e'' 5 1000 [5, 5] of
      Inl e \<Rightarrow> False
    | Inr (bs, db) \<Rightarrow> bs = [True, True] \<and> get_current_usage db ''c'' ''/e'' = (1, db))"
  by (simp add: allow_request_def sliding_window_script_def zremrangebyscore_def zcard_def
      zadd_def pexpire_def rate_key_def get_current_usage_def)

subsection \<open>C10: a non-positive limit denies\<close>

text \<open>
  C10: for every call with \<open>limit \<le> 0\<close>, \<open>allow_request\<close> returns false and no error; the
  store it leaves is the trimmed one, so the key has no entry it did not have before.
\<close>

theorem nonpositive_limit_always_denies:
  assumes "limit \<le> 0"
  shows "allow_request db now cid ep limit window =
           Inr (False, zremrangebyscore db (rate_key cid ep) (now - window)) \<and>
         set (entries (zremrangebyscore db (rate_key cid ep) (now - window)) (rate_key cid ep))
           \<subseteq> set (entries db (rate_key cid ep))"
proof -
  have "0 \<le> zcard (zremrangebyscore db (rate_key cid ep) (now - window)) (rate_key cid ep)"
    by (simp add: zcard_entries)
  with assms have "\<not> zcard (zremrangebyscore db (rate_key cid ep) (now - window)) (rate_key cid ep) < limit"
    by simp
  then have "allow_request db now cid ep limit window =
           Inr (False, zremrangebyscore db (rate_key cid ep) (now - window))"
    by (simp add: allow_request_def sliding_window_script_def Let_def)
  moreover have "set (entries (zremrangebyscore db (rate_key cid ep) (now - window)) (rate_key cid ep))
           \<subseteq> set (entries db (rate_key cid ep))"
    by (simp add: entries_zremrangebyscore)
  ultimately show ?thesis by simp
qed

text \<open>
  The theorem at limit 0 on the empty store and at limit \<open>-3\<close> on a key holding
  \<open>(4, 4)\<close>: both calls are denied and leave the store as it was.
\<close>

theorem nonpositive_limit_always_denies_witness:
  "(0::int) \<le> 0 \<and>
   allow_request Map.empty 5 ''c'' ''/e'' 0 1000 = Inr (False, Map.empty) \<and>
   allow_request [rate_key ''c'' ''/e'' \<mapsto> \<lparr>members = [(4, 4)], ttl = Some 2000\<rparr>]
     5 ''c'' ''/e'' (- 3) 1000 =
     Inr (False, [rate_key ''c'' ''/e'' \<mapsto> \<lparr>members = [(4, 4)], ttl = Some 2000\<rparr>])"
proof -
  have h0: "(0::int) \<le> 0" and h3: "(- 3::int) \<le> 0" by simp_all
  from nonpositive_limit_always_denies [OF h0, of Map.empty 5 "''c''" "''/e''" 1000]
    nonpositive_limit_always_denies [OF h3,
      of "[rate_key ''c'' ''/e'' \<mapsto> \<lparr>members = [(4, 4)], ttl = Some 2000\<rparr>]" 5 "''c''" "''/e''" 1000]
  show ?thesis
    by (simp add: zremrangebyscore_def)
qed

end
